theory Spec2Isabelle
  imports Complex_Main "HOL-Library.AList" "HOL-Library.Multiset" "HOL-Library.Sublist"
begin

section \<open>Data model of the metrics script\<close>

text \<open>
  The development embeds \<^verbatim>\<open>examples/metrics.py\<close>. Day counts are Python floats in the
  script; they are modelled as rationals, so that sums and quotients are exact. Python
  dictionaries keep insertion order and the script iterates over them, so a dictionary is
  an association list: assignment to a key is \<open>AList.update\<close> (an existing key keeps its
  place, a new key goes to the end), \<^verbatim>\<open>pop\<close> is \<open>AList.delete\<close>, lookup is
  \<open>map_of\<close>.
\<close>

datatype py_error = ValueError | StatisticsError | AttributeError

text \<open>
  The record written by \<^verbatim>\<open>aggregate\<close> (lines 134-141); its keys are \<^verbatim>\<open>values\<close>,
  \<^verbatim>\<open>count\<close>, \<^verbatim>\<open>min\<close>, \<^verbatim>\<open>max\<close>, \<^verbatim>\<open>mean\<close>, \<^verbatim>\<open>median\<close>.
\<close>

record aggregated =
  values_agg :: "rat list"
  count_agg :: nat
  min_agg :: rat
  max_agg :: rat
  mean_agg :: rat
  median_agg :: rat

text \<open>
  A stored metric value: \<^verbatim>\<open>aggregate\<close> tells a \<^verbatim>\<open>dict\<close> from a \<^verbatim>\<open>list\<close> from
  anything else (lines 125-129).
\<close>

datatype mvalue = Scalar rat | ValueList "rat list" | Aggregated aggregated

type_synonym metrics_dict = "(string \<times> mvalue) list"

text \<open>\<^verbatim>\<open>{'nodes': defaultdict(base_type), 'metrics': {}}\<close>\<close>

datatype node = Node (nodes: "(string \<times> node) list") (metrics: metrics_dict)


section \<open>The builtins and the statistics module\<close>

text \<open>\<^verbatim>\<open>min\<close> and \<^verbatim>\<open>max\<close> keep the best element seen so far and raise on an empty list.\<close>

definition py_min :: "rat list \<Rightarrow> py_error + rat" where
  "py_min xs = (case xs of [] \<Rightarrow> Inl ValueError | y # ys \<Rightarrow> Inr (fold min ys y))"

definition py_max :: "rat list \<Rightarrow> py_error + rat" where
  "py_max xs = (case xs of [] \<Rightarrow> Inl ValueError | y # ys \<Rightarrow> Inr (fold max ys y))"

text \<open>\<^verbatim>\<open>statistics.mean\<close>: the exact sum divided by the number of data points.\<close>

definition mean :: "rat list \<Rightarrow> py_error + rat" where
  "mean xs = (if length xs < 1 then Inl StatisticsError
              else Inr (sum_list xs / of_nat (length xs)))"

text \<open>
  \<^verbatim>\<open>statistics.median\<close>: sort, then the middle element, or the average of the two
  middle elements when the length is even.
\<close>

definition median :: "rat list \<Rightarrow> py_error + rat" where
  "median xs =
     (let data = sort xs; n = length data in
      if n = 0 then Inl StatisticsError
      else if n mod 2 = 1 then Inr (data ! (n div 2))
      else let i = n div 2 in Inr ((data ! (i - 1) + data ! i) / 2))"

section \<open>aggregate\<close>

text \<open>Lines 125-129: a record gives its \<^verbatim>\<open>values\<close>, a list itself, anything else a singleton.\<close>

fun unwrap :: "mvalue \<Rightarrow> rat list" where
  "unwrap (Aggregated r) = values_agg r"
| "unwrap (ValueList xs) = xs"
| "unwrap (Scalar x) = [x]"

text \<open>
  Lines 122-131, one \<^verbatim>\<open>(metric_id, value)\<close> pair: create the empty list for a new name,
  then extend the list of the name.
\<close>

definition extend_metric ::
  "string \<Rightarrow> mvalue \<Rightarrow> (string \<times> rat list) list \<Rightarrow> (string \<times> rat list) list" where
  "extend_metric metric_id v ms =
     (let ms' = (if metric_id \<notin> fst ` set ms then AList.update metric_id [] ms else ms)
      in AList.update metric_id (the (map_of ms' metric_id) @ unwrap v) ms')"

text \<open>Lines 120-131: the two nested loops over the children and their metrics.\<close>

definition collect_item :: "node \<Rightarrow> (string \<times> rat list) list \<Rightarrow> (string \<times> rat list) list" where
  "collect_item item ms = fold (\<lambda>(metric_id, v). extend_metric metric_id v) (metrics item) ms"

definition collect :: "node \<Rightarrow> (string \<times> rat list) list" where
  "collect n = fold collect_item (map snd (nodes n)) []"

text \<open>
  Lines 134-141: the dictionary display is evaluated entry by entry, so the first builtin
  to meet an empty list raises.
\<close>

definition summary :: "rat list \<Rightarrow> py_error + aggregated" where
  "summary vs =
     (case py_min vs of
        Inl e \<Rightarrow> Inl e
      | Inr mn \<Rightarrow>
         (case py_max vs of
            Inl e \<Rightarrow> Inl e
          | Inr mx \<Rightarrow>
             (case mean vs of
                Inl e \<Rightarrow> Inl e
              | Inr me \<Rightarrow>
                 (case median vs of
                    Inl e \<Rightarrow> Inl e
                  | Inr md \<Rightarrow>
                      Inr \<lparr>values_agg = sort vs, count_agg = length vs, min_agg = mn,
                           max_agg = mx, mean_agg = me, median_agg = md\<rparr>))))"

text \<open>Lines 133-141: the loop that writes the node's own \<^verbatim>\<open>metrics\<close>.\<close>

fun store_all :: "(string \<times> rat list) list \<Rightarrow> metrics_dict \<Rightarrow> py_error + metrics_dict" where
  "store_all [] ms = Inr ms"
| "store_all ((metric_id, vs) # rest) ms =
     (case summary vs of
        Inl e \<Rightarrow> Inl e
      | Inr r \<Rightarrow> store_all rest (AList.update metric_id (Aggregated r) ms))"

definition aggregate :: "node \<Rightarrow> py_error + node" where
  "aggregate n =
     (case store_all (collect n) (metrics n) of
        Inl e \<Rightarrow> Inl e
      | Inr ms \<Rightarrow> Inr (Node (nodes n) ms))"

section \<open>What the aggregator is specified to compute\<close>

text \<open>
  The definitions of this section follow the design document, to be compared with the
  embedding of the code above. The statistics are taken over a sequence of values: the
  least and the greatest element, the arithmetic mean, and the middle element of the sorted
  sequence, the two middle elements being averaged when the length is even.
\<close>

definition spec_median :: "rat list \<Rightarrow> rat" where
  "spec_median s =
     (if even (length s) then (s ! (length s div 2 - 1) + s ! (length s div 2)) / 2
      else s ! (length s div 2))"

definition spec_record :: "rat list \<Rightarrow> aggregated" where
  "spec_record vs =
     \<lparr>values_agg = sort vs, count_agg = length vs, min_agg = Min (set vs), max_agg = Max (set vs),
      mean_agg = sum_list vs / of_nat (length vs), median_agg = spec_median (sort vs)\<rparr>"



section \<open>Auxiliary notions for the proofs\<close>

text \<open>The list collected so far for a name, empty when the name is new.\<close>

definition lookup0 :: "(string \<times> rat list) list \<Rightarrow> string \<Rightarrow> rat list" where
  "lookup0 ms k = (case map_of ms k of None \<Rightarrow> [] | Some vs \<Rightarrow> vs)"

text \<open>What the inner loop of \<^verbatim>\<open>aggregate\<close> appends for a name when it runs over one child.\<close>

definition contrib :: "string \<Rightarrow> metrics_dict \<Rightarrow> rat list" where
  "contrib k xs = concat (map (unwrap \<circ> snd) (filter (\<lambda>p. fst p = k) xs))"

text \<open>What both loops append for a name, and the names some direct child holds.\<close>

definition gathered :: "string \<Rightarrow> node \<Rightarrow> rat list" where
  "gathered m n = concat (map (\<lambda>c. contrib m (metrics c)) (map snd (nodes n)))"

definition held :: "node \<Rightarrow> string set" where
  "held n = (\<Union>c\<in>snd ` set (nodes n). fst ` set (metrics c))"

section \<open>The scenario of the design document\<close>

text \<open>
  Two repositories under one organization: repository A has two issues that took 3 and 7
  days to close, repository B one feature request that took 10 days.
\<close>

definition repo_A :: node where
  "repo_A = Node [(''https://github.com/o/a/issues/1'', Node [] [(''time_to_close_bug'', Scalar 3)]),
                  (''https://github.com/o/a/issues/2'', Node [] [(''time_to_close_bug'', Scalar 7)])] []"

definition repo_A_swapped :: node where
  "repo_A_swapped =
     Node [(''https://github.com/o/a/issues/2'', Node [] [(''time_to_close_bug'', Scalar 7)]),
           (''https://github.com/o/a/issues/1'', Node [] [(''time_to_close_bug'', Scalar 3)])] []"

definition repo_B :: node where
  "repo_B = Node [(''https://github.com/o/b/issues/1'',
                   Node [] [(''time_to_close_feature'', Scalar 10)])] []"

text \<open>A child whose record carries no values: the builtins raise on it.\<close>

definition hollow :: node where
  "hollow = Node [(''c'', Node [] [(''time_open'', ValueList [])])] []"

section \<open>Properties of the aggregator\<close>

subsection \<open>The two collecting loops\<close>

lemma keys_extend_metric: "fst ` set (extend_metric k v ms) = insert k (fst ` set ms)"
  by (auto simp: extend_metric_def Let_def AList.dom_update)

lemma map_of_extend_metric:
  "map_of (extend_metric k v ms) = (map_of ms)(k \<mapsto> lookup0 ms k @ unwrap v)"
  by (cases "map_of ms k")
     (auto simp: extend_metric_def Let_def AList.update_conv' lookup0_def fun_eq_iff
      map_of_eq_None_iff[symmetric])

lemma lookup0_extend_metric:
  "lookup0 (extend_metric k v ms) k' = (if k' = k then lookup0 ms k @ unwrap v else lookup0 ms k')"
  by (simp add: lookup0_def map_of_extend_metric)

lemma distinct_extend_metric:
  "distinct (map fst ms) \<Longrightarrow> distinct (map fst (extend_metric k v ms))"
  by (simp add: extend_metric_def Let_def AList.distinct_update)

lemma keys_fold_extend:
  "fst ` set (fold (\<lambda>(k, v). extend_metric k v) xs ms) = fst ` set ms \<union> fst ` set xs"
  by (induction xs arbitrary: ms) (simp_all add: keys_extend_metric case_prod_beta)

lemma lookup0_fold_extend:
  "lookup0 (fold (\<lambda>(k, v). extend_metric k v) xs ms) k = lookup0 ms k @ contrib k xs"
  by (induction xs arbitrary: ms) (auto simp: lookup0_extend_metric contrib_def)

lemma distinct_fold_extend:
  "distinct (map fst ms) \<Longrightarrow> distinct (map fst (fold (\<lambda>(k, v). extend_metric k v) xs ms))"
  by (induction xs arbitrary: ms) (auto simp: distinct_extend_metric)

lemma keys_fold_collect:
  "fst ` set (fold collect_item cs ms) = fst ` set ms \<union> (\<Union>c\<in>set cs. fst ` set (metrics c))"
  by (induction cs arbitrary: ms) (auto simp: collect_item_def keys_fold_extend)

lemma lookup0_fold_collect:
  "lookup0 (fold collect_item cs ms) k = lookup0 ms k @ concat (map (\<lambda>c. contrib k (metrics c)) cs)"
  by (induction cs arbitrary: ms) (auto simp: collect_item_def lookup0_fold_extend)

lemma distinct_fold_collect:
  "distinct (map fst ms) \<Longrightarrow> distinct (map fst (fold collect_item cs ms))"
  by (induction cs arbitrary: ms) (auto simp: collect_item_def distinct_fold_extend)

lemma keys_collect: "fst ` set (collect n) = (\<Union>c\<in>snd ` set (nodes n). fst ` set (metrics c))"
  by (simp add: collect_def keys_fold_collect)

lemma lookup0_Nil [simp]: "lookup0 [] k = []"
  by (simp add: lookup0_def)

lemma lookup0_collect:
  "lookup0 (collect n) k = concat (map (\<lambda>c. contrib k (metrics c)) (map snd (nodes n)))"
  by (simp add: collect_def lookup0_fold_collect)

lemma distinct_collect: "distinct (map fst (collect n))"
  by (simp add: collect_def distinct_fold_collect)

lemma py_min_Min: "vs \<noteq> [] \<Longrightarrow> py_min vs = Inr (Min (set vs))"
  by (cases vs) (simp_all add: py_min_def Min.set_eq_fold del: set_simps)

lemma py_max_Max: "vs \<noteq> [] \<Longrightarrow> py_max vs = Inr (Max (set vs))"
  by (cases vs) (simp_all add: py_max_def Max.set_eq_fold del: set_simps)

lemma mean_nonempty: "vs \<noteq> [] \<Longrightarrow> mean vs = Inr (sum_list vs / of_nat (length vs))"
  by (cases vs) (simp_all add: mean_def)

lemma median_nonempty: "vs \<noteq> [] \<Longrightarrow> median vs = Inr (spec_median (sort vs))"
proof -
  assume ne: "vs \<noteq> []"
  have "length (sort vs) = length vs" by simp
  with ne have "length (sort vs) \<noteq> 0" by simp
  then show ?thesis
    unfolding median_def spec_median_def Let_def
    by (simp add: mod_2_eq_odd del: length_sort)
qed

lemma summary_Nil: "summary [] = Inl ValueError"
  by (simp add: summary_def py_min_def)

lemma summary_nonempty: "vs \<noteq> [] \<Longrightarrow> summary vs = Inr (spec_record vs)"
  by (simp add: summary_def py_min_Min py_max_Max mean_nonempty median_nonempty spec_record_def)

lemma summary_Inr_iff: "(\<exists>r. summary vs = Inr r) \<longleftrightarrow> vs \<noteq> []"
  by (cases "vs = []") (simp_all add: summary_Nil summary_nonempty)

lemma spec_record_mset: "mset vs = mset ws \<Longrightarrow> spec_record vs = spec_record ws"
proof -
  assume eq: "mset vs = mset ws"
  have s: "sort vs = sort ws"
    by (rule properties_for_sort) (simp_all add: eq)
  have l: "length vs = length ws"
    using eq by (rule mset_eq_length)
  have t: "set vs = set ws"
    using eq by (rule mset_eq_setD)
  have "sum_mset (mset vs) = sum_mset (mset ws)"
    by (simp add: eq)
  then have u: "sum_list vs = sum_list ws"
    by (simp add: sum_mset_sum_list)
  show ?thesis
    by (simp add: spec_record_def s l t u)
qed

lemma summary_mset:
  assumes "mset vs = mset ws"
  shows "summary vs = summary ws"
proof -
  have len: "length vs = length ws"
    using assms by (rule mset_eq_length)
  show ?thesis
  proof (cases "vs = []")
    case True
    with len have "ws = []" by simp
    with True show ?thesis by simp
  next
    case False
    with len have ne: "ws \<noteq> []" by auto
    show ?thesis
      using summary_nonempty[OF False] summary_nonempty[OF ne] spec_record_mset[OF assms]
      by simp
  qed
qed

lemma store_all_error: "store_all cs ms = Inl e \<Longrightarrow> e = ValueError"
proof (induction cs ms rule: store_all.induct)
  case (1 ms)
  then show ?case by simp
next
  case (2 k vs rest ms)
  then show ?case
    by (cases "vs = []") (simp_all add: summary_Nil summary_nonempty)
qed

lemma store_all_Inr_iff: "(\<exists>ms'. store_all cs ms = Inr ms') \<longleftrightarrow> (\<forall>p\<in>set cs. snd p \<noteq> [])"
proof (induction cs ms rule: store_all.induct)
  case (1 ms)
  then show ?case by simp
next
  case (2 k vs rest ms)
  then show ?case
    by (cases "vs = []") (simp_all add: summary_Nil summary_nonempty)
qed

lemma store_all_map_of:
  "distinct (map fst cs) \<Longrightarrow> store_all cs ms = Inr ms' \<Longrightarrow>
   map_of ms' k = (case map_of cs k of None \<Rightarrow> map_of ms k
                   | Some vs \<Rightarrow> Some (Aggregated (spec_record vs)))"
proof (induction cs ms rule: store_all.induct)
  case (1 ms)
  then show ?case by simp
next
  case (2 k' vs rest ms)
  show ?case
  proof (cases "vs = []")
    case True
    with "2.prems" show ?thesis by (simp add: summary_Nil)
  next
    case False
    then have s: "summary vs = Inr (spec_record vs)" by (rule summary_nonempty)
    from "2.prems" s have r: "store_all rest (AList.update k' (Aggregated (spec_record vs)) ms) = Inr ms'"
      by simp
    from "2.prems" have d: "distinct (map fst rest)" and nk: "k' \<notin> fst ` set rest" by auto
    from nk have none: "map_of rest k' = None" by (simp add: map_of_eq_None_iff)
    have "map_of ms' k = (case map_of rest k of None \<Rightarrow> map_of (AList.update k' (Aggregated (spec_record vs)) ms) k
                   | Some vs \<Rightarrow> Some (Aggregated (spec_record vs)))"
      using "2.IH"[OF s d r] .
    then show ?thesis
      using none by (cases "k = k'"; cases "map_of rest k") (simp_all add: AList.update_conv')
  qed
qed

lemma update_absent: "k \<notin> fst ` set ms \<Longrightarrow> AList.update k v ms = ms @ [(k, v)]"
  by (induction ms) auto

lemma store_all_fresh:
  "distinct (map fst cs) \<Longrightarrow> fst ` set cs \<inter> fst ` set ms = {} \<Longrightarrow> store_all cs ms = Inr ms' \<Longrightarrow>
   ms' = ms @ map (\<lambda>p. (fst p, Aggregated (spec_record (snd p)))) cs"
proof (induction cs ms rule: store_all.induct)
  case (1 ms)
  then show ?case by simp
next
  case (2 k' vs rest ms)
  show ?case
  proof (cases "vs = []")
    case True
    with "2.prems" show ?thesis by (simp add: summary_Nil)
  next
    case False
    then have s: "summary vs = Inr (spec_record vs)" by (rule summary_nonempty)
    from "2.prems" s have r: "store_all rest (AList.update k' (Aggregated (spec_record vs)) ms) = Inr ms'"
      by simp
    from "2.prems" have d: "distinct (map fst rest)" and nk: "k' \<notin> fst ` set rest"
      and nm: "k' \<notin> fst ` set ms" and dj: "fst ` set rest \<inter> fst ` set ms = {}" by auto
    have u: "AList.update k' (Aggregated (spec_record vs)) ms = ms @ [(k', Aggregated (spec_record vs))]"
      using nm by (rule update_absent)
    have dj': "fst ` set rest \<inter> fst ` set (AList.update k' (Aggregated (spec_record vs)) ms) = {}"
      using nk dj by (simp add: AList.dom_update)
    show ?thesis
      using "2.IH"[OF s d dj' r] u by simp
  qed
qed


lemma lookup0_collect_gathered: "lookup0 (collect n) m = gathered m n"
  by (simp add: lookup0_collect gathered_def)

lemma keys_collect_held: "fst ` set (collect n) = held n"
  by (simp add: keys_collect held_def)

lemma map_of_collect:
  "map_of (collect n) m = (if m \<in> held n then Some (gathered m n) else None)"
proof (cases "m \<in> held n")
  case True
  then have "m \<in> fst ` set (collect n)" by (simp add: keys_collect_held)
  then obtain vs where vs: "map_of (collect n) m = Some vs"
    by (cases "map_of (collect n) m") (auto simp: map_of_eq_None_iff)
  then have "lookup0 (collect n) m = vs" by (simp add: lookup0_def)
  with vs True show ?thesis by (simp add: lookup0_collect_gathered)
next
  case False
  then have "m \<notin> fst ` set (collect n)" by (simp add: keys_collect_held)
  with False show ?thesis by (simp add: map_of_eq_None_iff)
qed

lemma aggregate_Inr:
  "aggregate n = Inr n' \<longleftrightarrow> (\<exists>ms. store_all (collect n) (metrics n) = Inr ms \<and> n' = Node (nodes n) ms)"
  by (auto simp: aggregate_def split: sum.splits)

lemma aggregate_lookup:
  assumes "aggregate n = Inr n'"
  shows "map_of (metrics n') m =
           (if m \<in> held n then Some (Aggregated (spec_record (gathered m n)))
            else map_of (metrics n) m)"
proof -
  from assms obtain ms where ms: "store_all (collect n) (metrics n) = Inr ms"
    and n': "n' = Node (nodes n) ms"
    by (auto simp: aggregate_Inr)
  have "map_of ms m = (case map_of (collect n) m of None \<Rightarrow> map_of (metrics n) m
                   | Some vs \<Rightarrow> Some (Aggregated (spec_record vs)))"
    using distinct_collect ms by (rule store_all_map_of)
  then show ?thesis
    by (simp add: n' map_of_collect)
qed

lemma aggregate_Inr_iff:
  "(\<exists>n'. aggregate n = Inr n') \<longleftrightarrow> (\<forall>m\<in>held n. gathered m n \<noteq> [])"
proof -
  have "(\<exists>n'. aggregate n = Inr n') \<longleftrightarrow> (\<exists>ms. store_all (collect n) (metrics n) = Inr ms)"
    by (auto simp: aggregate_Inr)
  also have "\<dots> \<longleftrightarrow> (\<forall>p\<in>set (collect n). snd p \<noteq> [])"
    by (rule store_all_Inr_iff)
  also have "\<dots> \<longleftrightarrow> (\<forall>m\<in>held n. gathered m n \<noteq> [])"
  proof
    assume a: "\<forall>p\<in>set (collect n). snd p \<noteq> []"
    show "\<forall>m\<in>held n. gathered m n \<noteq> []"
    proof
      fix m assume "m \<in> held n"
      then have "map_of (collect n) m = Some (gathered m n)" by (simp add: map_of_collect)
      then have "(m, gathered m n) \<in> set (collect n)" by (rule map_of_SomeD)
      with a show "gathered m n \<noteq> []" by force
    qed
  next
    assume b: "\<forall>m\<in>held n. gathered m n \<noteq> []"
    show "\<forall>p\<in>set (collect n). snd p \<noteq> []"
    proof
      fix p assume p: "p \<in> set (collect n)"
      then have "(fst p, snd p) \<in> set (collect n)" by simp
      then have "map_of (collect n) (fst p) = Some (snd p)"
        using distinct_collect [of n] by (simp only: map_of_eq_Some_iff)
      moreover from p have "fst p \<in> held n"
        by (auto simp: keys_collect_held[symmetric])
      ultimately have "snd p = gathered (fst p) n" by (simp add: map_of_collect)
      with b \<open>fst p \<in> held n\<close> show "snd p \<noteq> []" by simp
    qed
  qed
  finally show ?thesis .
qed

lemma aggregate_Inl: "aggregate n = Inl e \<Longrightarrow> e = ValueError"
  by (auto simp: aggregate_def split: sum.splits dest: store_all_error)






lemma held_mset:
  assumes "mset (nodes n1) = mset (nodes n2)"
  shows "held n1 = held n2"
proof -
  from assms have "set (nodes n1) = set (nodes n2)" by (rule mset_eq_setD)
  then show ?thesis by (simp add: held_def)
qed

lemma mset_concat_map:
  "mset xs = mset ys \<Longrightarrow> mset (concat (map f xs)) = mset (concat (map f ys))"
proof -
  assume eq: "mset xs = mset ys"
  have "mset (concat (map f zs)) = (\<Sum>z\<in>#mset zs. mset (f z))" for zs :: "'a list"
    by (induction zs) simp_all
  then show ?thesis by (simp add: eq)
qed

lemma gathered_mset:
  assumes "mset (nodes n1) = mset (nodes n2)"
  shows "mset (gathered m n1) = mset (gathered m n2)"
proof -
  from assms have "image_mset snd (mset (nodes n1)) = image_mset snd (mset (nodes n2))"
    by simp
  then have "mset (map snd (nodes n1)) = mset (map snd (nodes n2))"
    by simp
  then show ?thesis
    unfolding gathered_def by (rule mset_concat_map)
qed

subsection \<open>The scenario, evaluated\<close>

lemma aggregate_repo_A:
  "aggregate repo_A =
     Inr (Node (nodes repo_A)
            [(''time_to_close_bug'',
              Aggregated \<lparr>values_agg = [3, 7], count_agg = 2, min_agg = 3, max_agg = 7,
                          mean_agg = 5, median_agg = 5\<rparr>)])"
  by (simp add: repo_A_def aggregate_def collect_def collect_item_def extend_metric_def
      summary_def py_min_def py_max_def mean_def median_def)

lemma aggregate_repo_A_swapped:
  "aggregate repo_A_swapped =
     Inr (Node (nodes repo_A_swapped)
            [(''time_to_close_bug'',
              Aggregated \<lparr>values_agg = [3, 7], count_agg = 2, min_agg = 3, max_agg = 7,
                          mean_agg = 5, median_agg = 5\<rparr>)])"
  by (simp add: repo_A_swapped_def aggregate_def collect_def collect_item_def extend_metric_def
      summary_def py_min_def py_max_def mean_def median_def)

lemma aggregate_hollow: "aggregate hollow = Inl ValueError"
  by (simp add: hollow_def aggregate_def collect_def collect_item_def extend_metric_def
      summary_def py_min_def)

section \<open>The claims about the aggregator\<close>





text \<open>
  Claim C4. Two nodes that differ only in the order of their direct children are
  aggregated alike: both calls return, and the nodes then map every metric name to the
  same record (hence the same count, minimum, maximum, mean and median), or both calls
  raise \<^verbatim>\<open>ValueError\<close>.
\<close>

theorem aggregate_order_independent:
  assumes perm: "mset (nodes n1) = mset (nodes n2)"
    and same: "metrics n1 = metrics n2"
  shows "(\<exists>r1 r2. aggregate n1 = Inr r1 \<and> aggregate n2 = Inr r2 \<and>
                   map_of (metrics r1) = map_of (metrics r2))
       \<or> (aggregate n1 = Inl ValueError \<and> aggregate n2 = Inl ValueError)"
proof -
  have h: "held n1 = held n2" using perm by (rule held_mset)
  have g: "mset (gathered m n1) = mset (gathered m n2)" for m
    using perm by (rule gathered_mset)
  have e: "gathered m n1 = [] \<longleftrightarrow> gathered m n2 = []" for m
    using g[of m] by (metis mset_zero_iff)
  show ?thesis
  proof (cases "\<forall>m\<in>held n1. gathered m n1 \<noteq> []")
    case True
    then obtain r1 where r1: "aggregate n1 = Inr r1"
      using aggregate_Inr_iff[of n1] by blast
    from True h e have "\<forall>m\<in>held n2. gathered m n2 \<noteq> []" by simp
    then obtain r2 where r2: "aggregate n2 = Inr r2"
      using aggregate_Inr_iff[of n2] by blast
    have "map_of (metrics r1) m = map_of (metrics r2) m" for m
      using aggregate_lookup[OF r1, of m] aggregate_lookup[OF r2, of m] h same
        spec_record_mset[OF g[of m]]
      by simp
    then have "map_of (metrics r1) = map_of (metrics r2)" by (rule ext)
    with r1 r2 show ?thesis by blast
  next
    case False
    then have f1: "\<not> (\<exists>r. aggregate n1 = Inr r)"
      using aggregate_Inr_iff[of n1] by blast
    from False h e have "\<not> (\<forall>m\<in>held n2. gathered m n2 \<noteq> [])" by simp
    then have f2: "\<not> (\<exists>r. aggregate n2 = Inr r)"
      using aggregate_Inr_iff[of n2] by blast
    from f1 obtain e1 where "aggregate n1 = Inl e1" by (cases "aggregate n1") auto
    then have a1: "aggregate n1 = Inl ValueError" using aggregate_Inl by blast
    from f2 obtain e2 where "aggregate n2 = Inl e2" by (cases "aggregate n2") auto
    then have a2: "aggregate n2 = Inl ValueError" using aggregate_Inl by blast
    from a1 a2 show ?thesis by simp
  qed
qed

theorem aggregate_order_independent_witness:
  "mset (nodes repo_A) = mset (nodes repo_A_swapped)
   \<and> metrics repo_A = metrics repo_A_swapped
   \<and> nodes repo_A \<noteq> nodes repo_A_swapped
   \<and> (\<exists>r1 r2. aggregate repo_A = Inr r1 \<and> aggregate repo_A_swapped = Inr r2 \<and>
                map_of (metrics r1) = map_of (metrics r2))"
proof -
  have p: "mset (nodes repo_A) = mset (nodes repo_A_swapped)"
    by (simp add: repo_A_def repo_A_swapped_def)
  have s: "metrics repo_A = metrics repo_A_swapped"
    by (simp add: repo_A_def repo_A_swapped_def)
  have d: "nodes repo_A \<noteq> nodes repo_A_swapped"
    by (simp add: repo_A_def repo_A_swapped_def)
  have "aggregate repo_A \<noteq> Inl ValueError"
    by (simp add: aggregate_repo_A)
  with aggregate_order_independent [OF p s] p s d show ?thesis by blast
qed



end
